theory Spec2Isabelle
  imports Complex_Main "HOL-Library.Log_Nat" "HOL-Library.Multiset" "HOL-Library.Product_Lexorder"
begin

section \<open>Numbers\<close>

text \<open>
  A JavaScript number is an IEEE 754 binary64 value. Every number that the modelled tests
  compute is finite, so a number is modelled by the rational it denotes, and every
  arithmetic operation is the exact operation followed by rounding to the nearest
  representable value, ties to the even significand (\<open>fl\<close>). Infinities, NaN and the sign
  of zero are not modelled: no modelled computation reaches a magnitude of \<open>2^1024\<close>.
\<close>

type_synonym number = rat

definition roundTiesToEven :: "rat \<Rightarrow> int" where
  "roundTiesToEven y =
     (let f = \<lfloor>y\<rfloor>; d = y - of_int f
      in if d < 1/2 then f else if 1/2 < d then f + 1 else if even f then f else f + 1)"

text \<open>The binary exponent \<open>e\<close> of a positive rational: \<open>2^e \<le> x < 2^(e+1)\<close>.\<close>

definition binade :: "rat \<Rightarrow> int" where
  "binade x =
     (let (p, q) = quotient_of x; e = bitlen p - bitlen q
      in if 2 powi e \<le> x then e else e - 1)"

text \<open>The spacing of binary64 values around \<open>x\<close>: 53 significant bits, and the fixed
  spacing \<open>2^-1074\<close> of the subnormal range.\<close>

definition ulp :: "rat \<Rightarrow> rat" where
  "ulp x = 2 powi (max (binade \<bar>x\<bar>) (- 1022) - 52)"

definition fl :: "rat \<Rightarrow> number" where
  "fl x = (if x = 0 then 0 else of_int (roundTiesToEven (x / ulp x)) * ulp x)"

definition is_double :: "rat \<Rightarrow> bool" where
  "is_double x \<longleftrightarrow> fl x = x"

text \<open>A decimal literal of the source denotes the nearest binary64 value.\<close>

definition lit :: "rat \<Rightarrow> number" where
  "lit q = fl q"

definition mul :: "number \<Rightarrow> number \<Rightarrow> number" where
  "mul a b = fl (a * b)"

definition add :: "number \<Rightarrow> number \<Rightarrow> number" where
  "add a b = fl (a + b)"

definition Math_floor :: "number \<Rightarrow> int" where
  "Math_floor x = \<lfloor>x\<rfloor>"

text \<open>\<open>Number.prototype.toString\<close> on an integral number below \<open>10^21\<close>: its decimal digits.\<close>

fun decimal :: "nat \<Rightarrow> string" where
  "decimal n = (if n < 10 then [char_of (48 + n)] else decimal (n div 10) @ [char_of (48 + n mod 10)])"

definition toString :: "int \<Rightarrow> string" where
  "toString k = (if k < 0 then CHR ''-'' # decimal (nat (- k)) else decimal (nat k))"

section \<open>The random source and its stub\<close>

text \<open>
  \<open>Math.random\<close> is either the engine's own generator or a spy installed by
  \<open>jest.spyOn(Math, 'random')\<close>. A spy answers from the values queued by
  \<open>mockReturnValueOnce\<close>, in the order they were queued; when that queue is empty it answers
  the value fixed by \<open>mockReturnValue\<close>; when there is none it calls through to the generator.
  The generator is the sequence \<open>native\<close> of the values it is going to return, one per call.
  The spy, like the fake clock further down, is the test runner's: its functions follow the
  runner's documented behaviour.
\<close>

record mockState =
  onceQueue :: "number list"
  returnValue :: "number option"

datatype randomImpl = Original | Spy mockState

record randomSource =
  impl :: randomImpl
  native :: "nat \<Rightarrow> number"
  nativeCalls :: nat

definition callOriginal :: "randomSource \<Rightarrow> number \<times> randomSource" where
  "callOriginal s = (native s (nativeCalls s), s\<lparr>nativeCalls := Suc (nativeCalls s)\<rparr>)"

definition Math_random :: "randomSource \<Rightarrow> number \<times> randomSource" where
  "Math_random s =
     (case impl s of
        Original \<Rightarrow> callOriginal s
      | Spy m \<Rightarrow>
          (case onceQueue m of
             v # vs \<Rightarrow> (v, s\<lparr>impl := Spy (m\<lparr>onceQueue := vs\<rparr>)\<rparr>)
           | [] \<Rightarrow> (case returnValue m of Some v \<Rightarrow> (v, s) | None \<Rightarrow> callOriginal s)))"

definition spyOn :: "randomSource \<Rightarrow> randomSource" where
  "spyOn s =
     (case impl s of
        Original \<Rightarrow> s\<lparr>impl := Spy \<lparr>onceQueue = [], returnValue = None\<rparr>\<rparr>
      | Spy m \<Rightarrow> s)"

definition mockReturnValueOnce :: "number \<Rightarrow> randomSource \<Rightarrow> randomSource" where
  "mockReturnValueOnce v s =
     (case impl s of
        Original \<Rightarrow> s
      | Spy m \<Rightarrow> s\<lparr>impl := Spy (m\<lparr>onceQueue := onceQueue m @ [v]\<rparr>)\<rparr>)"

definition mockReturnValue :: "number \<Rightarrow> randomSource \<Rightarrow> randomSource" where
  "mockReturnValue v s =
     (case impl s of
        Original \<Rightarrow> s
      | Spy m \<Rightarrow> s\<lparr>impl := Spy (m\<lparr>returnValue := Some v\<rparr>)\<rparr>)"

definition mockRestore :: "randomSource \<Rightarrow> randomSource" where
  "mockRestore s = s\<lparr>impl := Original\<rparr>"

text \<open>\<open>seq.forEach(v => randSpy.mockReturnValueOnce(v))\<close>\<close>

definition forEach_mockReturnValueOnce :: "number list \<Rightarrow> randomSource \<Rightarrow> randomSource" where
  "forEach_mockReturnValueOnce vs s = foldl (\<lambda>s v. mockReturnValueOnce v s) s vs"

section \<open>Test 11: score generation\<close>

definition mockGenerateScore :: "randomSource \<Rightarrow> int \<times> randomSource" where
  "mockGenerateScore s =
     (let (randomMultiplier, s') = Math_random s;
          baseScore = 100
      in (Math_floor (mul baseScore randomMultiplier), s'))"

text \<open>The body of the test up to its expectations: the three scores, in call order.\<close>

definition test11_scores :: "randomSource \<Rightarrow> int list \<times> randomSource" where
  "test11_scores s0 =
     (let s = mockReturnValueOnce (lit (42/100))
                (mockReturnValueOnce (lit (12/100))
                  (mockReturnValueOnce (lit (86/100)) (spyOn s0)));
          (score1, s1) = mockGenerateScore s;
          (score2, s2) = mockGenerateScore s1;
          (score3, s3) = mockGenerateScore s2
      in ([score1, score2, score3], mockRestore s3))"

text \<open>\<open>n\<close> successive calls of the random source.\<close>

fun draws :: "nat \<Rightarrow> randomSource \<Rightarrow> number list \<times> randomSource" where
  "draws 0 s = ([], s)"
| "draws (Suc n) s = (let (v, s') = Math_random s; (vs, s'') = draws n s' in (v # vs, s''))"

text \<open>
  Every value the source returns, however many calls are made, is a binary64 value in
  \<open>[0, 1)\<close>: what \<open>Math.random\<close> promises of the engine's generator.
\<close>

definition unitDraw :: "number \<Rightarrow> bool" where
  "unitDraw r \<longleftrightarrow> is_double r \<and> 0 \<le> r \<and> r < 1"

definition returnsUnitDraws :: "randomSource \<Rightarrow> bool" where
  "returnsUnitDraws s \<longleftrightarrow> (\<forall>n. \<forall>v \<in> set (fst (draws n s)). unitDraw v)"

section \<open>Test 18: weighted selection\<close>

text \<open>\<open>const weights = { common: 0.7, rare: 0.25, legendary: 0.05 }\<close>\<close>

definition weights_common :: number where "weights_common = lit (7/10)"
definition weights_rare :: number where "weights_rare = lit (25/100)"
definition weights_legendary :: number where "weights_legendary = lit (5/100)"

definition mockWeightedSelect :: "randomSource \<Rightarrow> string \<times> randomSource" where
  "mockWeightedSelect s =
     (let (random, s') = Math_random s
      in if random < weights_legendary then (''legendary'', s')
         else if random < add weights_legendary weights_rare then (''rare'', s')
         else (''common'', s'))"

text \<open>
  \<open>results[result]++\<close> on the object \<open>{ common: 0, rare: 0, legendary: 0 }\<close>, kept as the
  list of its properties in creation order. \<open>mockWeightedSelect\<close> returns no other key.
\<close>

definition increment :: "string \<Rightarrow> (string \<times> int) list \<Rightarrow> (string \<times> int) list" where
  "increment key obj = map (\<lambda>(k, c). if k = key then (k, c + 1) else (k, c)) obj"

fun test18_loop ::
  "nat \<Rightarrow> (string \<times> int) list \<times> randomSource \<Rightarrow> (string \<times> int) list \<times> randomSource" where
  "test18_loop 0 st = st"
| "test18_loop (Suc n) (results, s) =
     (let (result, s') = mockWeightedSelect s in test18_loop n (increment result results, s'))"

definition seq18 :: "number list" where
  "seq18 = map lit
     [9/10, 8/10, 6/10, 3/10, 2/10, 1/100, 75/100, 26/100, 55/100, 4/10,
      15/100, 5/100, 95/100, 7/10, 85/100, 32/100, 22/100, 12/100, 88/100, 62/100]"

definition test18_results :: "randomSource \<Rightarrow> (string \<times> int) list \<times> randomSource" where
  "test18_results s0 =
     (let iterations = 20;
          s = forEach_mockReturnValueOnce seq18 (spyOn s0);
          (results, s') = test18_loop iterations ([(''common'', 0), (''rare'', 0), (''legendary'', 0)], s)
      in (results, mockRestore s'))"

section \<open>Test 13: Fisher-Yates shuffle\<close>

text \<open>
  Arrays are objects: a variable holds a reference, and an assignment through one reference
  is seen through every other. The heap is the list of the arrays allocated so far, a
  reference is a position in it. An element is \<open>None\<close> where JavaScript reads \<open>undefined\<close>.
\<close>

type_synonym 'a jsarray = "'a option list"
type_synonym 'a heap = "'a jsarray list"

datatype error = TypeError

definition deref :: "'a heap \<Rightarrow> nat \<Rightarrow> 'a jsarray option" where
  "deref h p = (if p < length h then Some (h ! p) else None)"

text \<open>Reading past the end yields \<open>undefined\<close>; so does reading a negative index.\<close>

definition getIndex :: "'a jsarray \<Rightarrow> int \<Rightarrow> 'a option" where
  "getIndex a k = (if 0 \<le> k \<and> nat k < length a then a ! nat k else None)"

text \<open>Writing past the end extends the array over a run of holes; a negative index names
  an ordinary property and leaves the elements alone.\<close>

definition setIndex :: "'a jsarray \<Rightarrow> int \<Rightarrow> 'a option \<Rightarrow> 'a jsarray" where
  "setIndex a k v =
     (if k < 0 then a
      else if nat k < length a then a[nat k := v]
      else a @ replicate (nat k - length a) None @ [v])"

text \<open>
  The loop \<open>for (let i = shuffled.length - 1; i > 0; i--)\<close>, by recursion on \<open>i\<close>. The
  destructuring assignment reads both elements before it writes either.
\<close>

fun shuffleLoop :: "nat \<Rightarrow> nat \<Rightarrow> 'a heap \<times> randomSource \<Rightarrow> 'a heap \<times> randomSource" where
  "shuffleLoop shuffled 0 st = st"
| "shuffleLoop shuffled (Suc i') (h, s) =
     (let i = Suc i';
          (r, s') = Math_random s;
          j = Math_floor (mul r (of_nat (i + 1)))
      in case deref h shuffled of
           None \<Rightarrow> (h, s')
         | Some a \<Rightarrow>
             (let vj = getIndex a j; vi = getIndex a (int i);
                  a' = setIndex (setIndex a (int i) vj) j vi
              in shuffleLoop shuffled i' (h[shuffled := a'], s')))"

text \<open>
  \<open>mockShuffle(array)\<close>: \<open>[...array]\<close> allocates a new array with the elements of the
  argument; the loop works on that one; its reference is returned. For the empty array
  \<open>shuffled.length - 1\<close> is \<open>-1\<close> and the loop body never runs, as for \<open>0\<close>.
\<close>

definition mockShuffle ::
  "nat \<Rightarrow> 'a heap \<times> randomSource \<Rightarrow> error + (nat \<times> 'a heap \<times> randomSource)" where
  "mockShuffle array st =
     (let (h, s) = st
      in case deref h array of
           None \<Rightarrow> Inl TypeError
         | Some a \<Rightarrow>
             (let shuffled = length h;
                  h1 = h @ [a];
                  (h2, s') = shuffleLoop shuffled (length a - 1) (h1, s)
              in Inr (shuffled, h2, s')))"

text \<open>The body of test 13: the heap holds \<open>originalArray\<close> at reference 0.\<close>

definition originalArray :: "number jsarray" where
  "originalArray = map Some [1, 2, 3, 4, 5]"

definition test13_shuffled1 :: "randomSource \<Rightarrow> error + (nat \<times> number heap \<times> randomSource)" where
  "test13_shuffled1 s0 = mockShuffle 0 ([originalArray], mockReturnValue 0 (spyOn s0))"

section \<open>Test 15: identifiers drawn from a range of 100\<close>

definition mockGenerateId :: "randomSource \<Rightarrow> string \<times> randomSource" where
  "mockGenerateId s = (let (r, s') = Math_random s in (toString (Math_floor (mul r 100)), s'))"

text \<open>A \<open>Set\<close> keeps its members in insertion order, each once.\<close>

definition Set_add :: "'a \<Rightarrow> 'a list \<Rightarrow> 'a list" where
  "Set_add x xs = (if x \<in> set xs then xs else xs @ [x])"

definition Set_size :: "'a list \<Rightarrow> nat" where
  "Set_size xs = length xs"

fun test15_loop :: "nat \<Rightarrow> string list \<times> randomSource \<Rightarrow> string list \<times> randomSource" where
  "test15_loop 0 st = st"
| "test15_loop (Suc n) (generatedIds, s) =
     (let (id, s') = mockGenerateId s in test15_loop n (Set_add id generatedIds, s'))"

definition test15_generatedIds :: "randomSource \<Rightarrow> string list" where
  "test15_generatedIds s = fst (test15_loop 150 ([], s))"

section \<open>The test-runner configuration\<close>

text \<open>\<open>process.env\<close>: a variable that is not set reads \<open>undefined\<close>.\<close>

type_synonym env = "string \<rightharpoonup> string"

record jestConfig =
  testEnvironment :: string
  setupFilesAfterEnv :: "string list"
  testMatch :: "string list"
  testPathIgnorePatterns :: "string list"
  collectCoverageFrom :: "string list"
  coverageDirectory :: string
  coverageReporters :: "string list"
  verbose :: bool
  clearMocks :: bool
  resetMocks :: bool
  restoreMocks :: bool

definition isCI :: "env \<Rightarrow> bool" where
  "isCI env \<longleftrightarrow> env ''CI'' = Some ''true'' \<or> env ''GITHUB_ACTIONS'' = Some ''true''"

text \<open>The string that the source writes \<open>"flaky-.*\\.test\\.js"\<close>; \<open>CHR 0x5C\<close> is the
  backslash.\<close>

definition flakyPattern :: string where
  "flakyPattern = ''flaky-.*'' @ [CHR 0x5C] @ ''.test'' @ [CHR 0x5C] @ ''.js''"

definition module_exports :: "env \<Rightarrow> jestConfig" where
  "module_exports env =
     \<lparr>testEnvironment = ''jsdom'',
      setupFilesAfterEnv = [''<rootDir>/tests/setup.js''],
      testMatch = [''<rootDir>/tests/**/*.test.js''],
      testPathIgnorePatterns = (if isCI env then [flakyPattern] else []),
      collectCoverageFrom = [''script.js'', ''!**/node_modules/**''],
      coverageDirectory = ''coverage'',
      coverageReporters = [''text'', ''lcov'', ''html''],
      verbose = True,
      clearMocks = True,
      resetMocks = True,
      restoreMocks = True\<rparr>"

section \<open>Retrying a request\<close>

datatype jsError = Error string

record response =
  success :: bool
  attempts :: nat

text \<open>
  A settled promise is its outcome: \<open>Inl\<close> the reason of a rejection, \<open>Inr\<close> the value of a
  fulfilment. \<open>await\<close> throws the one and yields the other. \<open>attemptCount\<close> is the variable
  the closure shares with the test; \<open>outcomes[attemptCount - 1]\<close> past the end of the script
  is \<open>undefined\<close>, which is not \<open>true\<close>.
\<close>

definition mockUnreliableApi :: "bool list \<Rightarrow> nat \<Rightarrow> (jsError + response) \<times> nat" where
  "mockUnreliableApi outcomes attemptCount0 =
     (let attemptCount = attemptCount0 + 1;
          shouldSucceed = (attemptCount - 1 < length outcomes \<and> outcomes ! (attemptCount - 1))
      in (if shouldSucceed then Inr \<lparr>success = True, attempts = attemptCount\<rparr>
          else Inl (Error (''Attempt '' @ decimal attemptCount @ '' failed'')),
          attemptCount))"

text \<open>
  The loop \<open>for (let i = 0; i < maxRetries; i++)\<close> from \<open>i\<close> on. A function that leaves its
  loop without \<open>return\<close> yields \<open>undefined\<close>, here \<open>None\<close>.
\<close>

function retryLoop ::
  "bool list \<Rightarrow> nat \<Rightarrow> nat \<Rightarrow> nat \<Rightarrow> (jsError + response option) \<times> nat" where
  "retryLoop outcomes maxRetries i attemptCount =
     (if i < maxRetries then
        (case mockUnreliableApi outcomes attemptCount of
           (Inr r, attemptCount') \<Rightarrow> (Inr (Some r), attemptCount')
         | (Inl error, attemptCount') \<Rightarrow>
             if int i = int maxRetries - 1 then (Inl error, attemptCount')
             else retryLoop outcomes maxRetries (i + 1) attemptCount')
      else (Inr None, attemptCount))"
  by pat_completeness auto
termination
  by (relation "measure (\<lambda>(outcomes, maxRetries, i, attemptCount). maxRetries - i)") auto

declare retryLoop.simps [simp del]

definition mockRetryRequest :: "bool list \<Rightarrow> nat \<Rightarrow> nat \<Rightarrow> (jsError + response option) \<times> nat" where
  "mockRetryRequest outcomes maxRetries attemptCount = retryLoop outcomes maxRetries 0 attemptCount"

section \<open>Fake timers\<close>

text \<open>
  \<open>jest.useFakeTimers()\<close> replaces \<open>setTimeout\<close>, \<open>clearTimeout\<close> and \<open>Date\<close> by a virtual
  clock: a current time in milliseconds, which \<open>Date.now()\<close> reads, and the table of the
  pending timers, kept here in creation order. A timer records the identifier that
  \<open>setTimeout\<close> returned, the virtual time it is due, and its callback. The callbacks of a
  test are the constructors of a datatype \<open>'c\<close> of the test's own. The clock belongs to the
  test runner, not to the repository, whose tests only call it: this section follows the
  runner's documented behaviour.
\<close>

record 'c timer =
  timerId :: nat
  callAt :: int
  func :: 'c

record 'c clock =
  now :: int
  timers :: "'c timer list"
  uniqueTimerId :: nat
  duringTick :: bool

text \<open>
  \<open>setTimeout(func, delay)\<close>: a negative delay counts as 0 and a fraction of a millisecond
  is dropped. A timer of delay 0 that is created while the clock is being advanced is due
  one millisecond later.
\<close>

definition setTimeout :: "'c \<Rightarrow> number \<Rightarrow> 'c clock \<Rightarrow> nat \<times> 'c clock" where
  "setTimeout f delay c =
     (let d = nat \<lfloor>max 0 delay\<rfloor>;
          t = \<lparr>timerId = uniqueTimerId c,
               callAt = now c + (if d = 0 then (if duringTick c then 1 else 0) else int d),
               func = f\<rparr>
      in (uniqueTimerId c, c\<lparr>timers := timers c @ [t], uniqueTimerId := uniqueTimerId c + 1\<rparr>))"

text \<open>\<open>clearTimeout(id)\<close>; \<open>clearTimeout(undefined)\<close> does nothing.\<close>

definition clearTimeout :: "nat option \<Rightarrow> 'c clock \<Rightarrow> 'c clock" where
  "clearTimeout tid c =
     (case tid of
        None \<Rightarrow> c
      | Some i \<Rightarrow> c\<lparr>timers := filter (\<lambda>t. timerId t \<noteq> i) (timers c)\<rparr>)"

text \<open>Of two timers the one due earlier runs first, and of two due together the one created
  first.\<close>

definition scheduleKey :: "'c timer \<Rightarrow> int \<times> nat" where
  "scheduleKey t = (callAt t, timerId t)"

text \<open>The pending timer due at or before \<open>to\<close> that runs first, if there is one: one pass
  over the table, keeping the best candidate.\<close>

definition better :: "int \<Rightarrow> 'c timer option \<Rightarrow> 'c timer \<Rightarrow> 'c timer option" where
  "better to best t =
     (if callAt t \<le> to \<and> (case best of None \<Rightarrow> True | Some b \<Rightarrow> scheduleKey t < scheduleKey b)
      then Some t else best)"

definition firstTimerInRange :: "int \<Rightarrow> 'c timer list \<Rightarrow> 'c timer option" where
  "firstTimerInRange to ts = foldl (better to) None ts"

text \<open>
  A callback runs at a virtual time on the variables \<open>'v\<close> of its test. It returns the
  variables as it leaves them and the \<open>setTimeout\<close> calls it made, in order: \<open>exec\<close> is the
  meaning of the test's callbacks.
\<close>

type_synonym ('c, 'v) exec = "'c \<Rightarrow> int \<Rightarrow> 'v \<Rightarrow> 'v \<times> ('c \<times> number) list"


definition addTimers :: "('c \<times> number) list \<Rightarrow> 'c clock \<Rightarrow> 'c clock" where
  "addTimers reqs c = foldl (\<lambda>c (f, delay). snd (setTimeout f delay c)) c reqs"

text \<open>One timer fires: the clock moves to its time, it leaves the table, its callback runs.
  A timer fires only while the clock is being advanced.\<close>

definition callTimer :: "('c, 'v) exec \<Rightarrow> 'c timer \<Rightarrow> 'c clock \<times> 'v \<Rightarrow> 'c clock \<times> 'v" where
  "callTimer exec t st =
     (let (c, v) = st;
          c1 = c\<lparr>now := callAt t, duringTick := True,
                 timers := filter (\<lambda>u. timerId u \<noteq> timerId t) (timers c)\<rparr>;
          (v', reqs) = exec (func t) (now c1) v
      in (addTimers reqs c1, v'))"


text \<open>What is left to do before the clock reaches \<open>to\<close>: the distance from the next timer
  due to the horizon, then the number of timers due with it.\<close>

definition remaining :: "int \<Rightarrow> 'c timer list \<Rightarrow> nat" where
  "remaining to ts = (case firstTimerInRange to ts of None \<Rightarrow> 0 | Some t \<Rightarrow> nat (to + 1 - callAt t))"

definition together :: "int \<Rightarrow> 'c timer list \<Rightarrow> nat" where
  "together to ts =
     (case firstTimerInRange to ts of
        None \<Rightarrow> 0
      | Some t \<Rightarrow> length (filter (\<lambda>u. callAt u \<le> callAt t) ts))"

lemma better_fold:
  assumes "\<forall>b. best = Some b \<longrightarrow> callAt b \<le> to"
  shows "(foldl (better to) best ts = None
            \<longleftrightarrow> best = None \<and> (\<forall>t \<in> set ts. \<not> callAt t \<le> to))
       \<and> (\<forall>x. foldl (better to) best ts = Some x \<longrightarrow>
             (best = Some x \<or> x \<in> set ts) \<and> callAt x \<le> to
           \<and> (\<forall>u \<in> set ts. callAt u \<le> to \<longrightarrow> scheduleKey x \<le> scheduleKey u)
           \<and> (\<forall>b. best = Some b \<longrightarrow> scheduleKey x \<le> scheduleKey b))"
  using assms
proof (induction ts arbitrary: best)
  case Nil
  then show ?case by auto
next
  case (Cons t ts)
  have inv: "\<forall>b. better to best t = Some b \<longrightarrow> callAt b \<le> to"
    using Cons.prems by (auto simp: better_def)
  note IH = Cons.IH [OF inv]
  show ?case
  proof (cases "better to best t = best")
    case True
    then have skip: "\<not> callAt t \<le> to \<or> (\<exists>b. best = Some b \<and> \<not> scheduleKey t < scheduleKey b)"
      by (auto simp: better_def split: if_splits option.splits)
    show ?thesis using IH skip unfolding True by (simp only: foldl_Cons True) force
  next
    case False
    then have take: "better to best t = Some t" and due: "callAt t \<le> to"
      and lt: "\<forall>b. best = Some b \<longrightarrow> scheduleKey t < scheduleKey b"
      by (auto simp: better_def split: if_splits option.splits)
    show ?thesis using IH due lt unfolding take by (simp only: foldl_Cons take) force
  qed
qed


lemma firstTimerInRange_Some:
  assumes "firstTimerInRange to ts = Some t"
  shows "t \<in> set ts" and "callAt t \<le> to"
    and "\<And>u. u \<in> set ts \<Longrightarrow> callAt u \<le> to \<Longrightarrow> scheduleKey t \<le> scheduleKey u"
  using better_fold [of None to ts] assms by (simp_all add: firstTimerInRange_def)

lemma addTimers_timers:
  assumes "duringTick c"
  shows "\<exists>new. timers (addTimers reqs c) = timers c @ new \<and> (\<forall>u \<in> set new. now c < callAt u)"
    and "now (addTimers reqs c) = now c" and "duringTick (addTimers reqs c)"
proof -
  have "(\<exists>new. timers (addTimers reqs c) = timers c @ new \<and> (\<forall>u \<in> set new. now c < callAt u))
      \<and> now (addTimers reqs c) = now c \<and> duringTick (addTimers reqs c)"
    using assms
  proof (induction reqs arbitrary: c)
    case Nil
    then show ?case by (simp add: addTimers_def)
  next
    case (Cons q reqs)
    obtain f delay where q: "q = (f, delay)" by (cases q)
    define c' where "c' = snd (setTimeout f delay c)"
    have step: "addTimers (q # reqs) c = addTimers reqs c'"
      by (simp add: addTimers_def q c'_def)
    obtain t where t: "timers c' = timers c @ [t]" and late: "now c < callAt t"
      and n: "now c' = now c" and d: "duringTick c'"
      using Cons.prems by (simp add: c'_def setTimeout_def Let_def)
    from Cons.IH [OF d] obtain new where
      "timers (addTimers reqs c') = timers c' @ new" and "\<forall>u \<in> set new. now c' < callAt u"
      and "now (addTimers reqs c') = now c'" and "duringTick (addTimers reqs c')" by blast
    then have "timers (addTimers reqs c') = timers c @ (t # new)"
      and "\<forall>u \<in> set (t # new). now c < callAt u"
      and "now (addTimers reqs c') = now c" and "duringTick (addTimers reqs c')"
      using t late n by simp_all
    then show ?case unfolding step by blast
  qed
  then show "\<exists>new. timers (addTimers reqs c) = timers c @ new \<and> (\<forall>u \<in> set new. now c < callAt u)"
    and "now (addTimers reqs c) = now c" and "duringTick (addTimers reqs c)" by blast+
qed

lemma callTimer_timers:
  assumes "callTimer exec t (c, v) = (c2, v')"
  shows "\<exists>new. timers c2 = filter (\<lambda>u. timerId u \<noteq> timerId t) (timers c) @ new
              \<and> (\<forall>u \<in> set new. callAt t < callAt u)"
    and "now c2 = callAt t"
proof -
  define c1 where "c1 = c\<lparr>now := callAt t, duringTick := True,
      timers := filter (\<lambda>u. timerId u \<noteq> timerId t) (timers c)\<rparr>"
  obtain w reqs where e: "exec (func t) (now c1) v = (w, reqs)" by (cases "exec (func t) (now c1) v")
  have c2: "c2 = addTimers reqs c1"
    using assms e by (simp add: callTimer_def c1_def Let_def)
  have d: "duringTick c1" by (simp add: c1_def)
  from addTimers_timers [OF d, of reqs]
  show "\<exists>new. timers c2 = filter (\<lambda>u. timerId u \<noteq> timerId t) (timers c) @ new
              \<and> (\<forall>u \<in> set new. callAt t < callAt u)"
    and "now c2 = callAt t"
    by (simp_all add: c2 c1_def)
qed

lemma length_filter_removed:
  assumes "t \<in> set ts" and "P t" and "\<not> Q t"
  shows "length (filter P (filter Q ts)) < length (filter P ts)"
proof -
  have "filter P (filter Q ts) = filter (\<lambda>u. P u \<and> Q u) ts" by (simp add: conj_commute)
  moreover have "length (filter (\<lambda>u. P u \<and> Q u) ts) < length (filter P ts)"
    using assms
  proof (induction ts)
    case Nil
    then show ?case by simp
  next
    case (Cons a ts)
    have le: "length (filter (\<lambda>u. P u \<and> Q u) ts) \<le> length (filter P ts)"
      by (induction ts) auto
    show ?case
    proof (cases "a = t")
      case True
      then show ?thesis using Cons.prems le by simp
    next
      case False
      then have "t \<in> set ts" using Cons.prems by simp
      from Cons.IH [OF this Cons.prems(2,3)] show ?thesis by simp
    qed
  qed
  ultimately show ?thesis by simp
qed

lemma tick_progress:
  assumes first: "firstTimerInRange to ts = Some t"
    and ts2: "ts2 = filter (\<lambda>u. timerId u \<noteq> timerId t) ts @ new"
    and new: "\<forall>u \<in> set new. callAt t < callAt u"
  shows "remaining to ts2 < remaining to ts
       \<or> (remaining to ts2 = remaining to ts \<and> together to ts2 < together to ts)"
proof (cases "firstTimerInRange to ts2")
  case None
  then show ?thesis using first firstTimerInRange_Some(2) [OF first]
    by (simp add: remaining_def)
next
  case (Some t2)
  note t = firstTimerInRange_Some [OF first]
  note t2 = firstTimerInRange_Some [OF Some]
  have ge: "callAt t \<le> callAt t2"
  proof (cases "t2 \<in> set new")
    case True
    then show ?thesis using new by auto
  next
    case False
    then have "t2 \<in> set ts" using t2(1) by (simp add: ts2)
    from t(3) [OF this t2(2)] show ?thesis by (auto simp: scheduleKey_def less_eq_prod_def)
  qed
  show ?thesis
  proof (cases "callAt t = callAt t2")
    case False
    then have "nat (to + 1 - callAt t2) < nat (to + 1 - callAt t)" using ge t2(2) by linarith
    then show ?thesis using first Some by (simp add: remaining_def)
  next
    case True
    have "filter (\<lambda>u. callAt u \<le> callAt t) new = []" using new by (auto simp: filter_empty_conv)
    then have "length (filter (\<lambda>u. callAt u \<le> callAt t) ts2)
        = length (filter (\<lambda>u. callAt u \<le> callAt t) (filter (\<lambda>u. timerId u \<noteq> timerId t) ts))"
      by (simp add: ts2)
    also have "\<dots> < length (filter (\<lambda>u. callAt u \<le> callAt t) ts)"
      using t(1) by (rule length_filter_removed) simp_all
    finally show ?thesis using True first Some by (simp add: remaining_def together_def)
  qed
qed

text \<open>
  The clock is advanced to \<open>to\<close>: as long as a pending timer is due at or before \<open>to\<close>, the
  first of them fires; timers that a callback creates on the way are pending like the
  others.
\<close>

function tickLoop :: "('c, 'v) exec \<Rightarrow> int \<Rightarrow> 'c clock \<times> 'v \<Rightarrow> 'c clock \<times> 'v" where
  "tickLoop exec to (c, v) =
     (case firstTimerInRange to (timers c) of
        None \<Rightarrow> (c, v)
      | Some t \<Rightarrow> tickLoop exec to (callTimer exec t (c, v)))"
  by pat_completeness auto
termination
proof (relation "measures [\<lambda>(exec, to, c, v). remaining to (timers c),
                           \<lambda>(exec, to, c, v). together to (timers c)]", goal_cases)
  case 1
  show ?case by simp
next
  case (2 exec to c v t)
  obtain c2 v' where r: "callTimer exec t (c, v) = (c2, v')" by (cases "callTimer exec t (c, v)")
  from callTimer_timers(1) [OF r] obtain new
    where "timers c2 = filter (\<lambda>u. timerId u \<noteq> timerId t) (timers c) @ new"
      and "\<forall>u \<in> set new. callAt t < callAt u" by blast
  from tick_progress [OF 2 this] show ?case by (auto simp: r)
qed

declare tickLoop.simps [simp del]

text \<open>
  \<open>jest.advanceTimersByTime(ms)\<close>: every timer due within the next \<open>ms\<close> milliseconds
  fires, then the clock stands at the end of the interval.
\<close>

definition advanceTimersByTime ::
  "('c, 'v) exec \<Rightarrow> nat \<Rightarrow> 'c clock \<times> 'v \<Rightarrow> 'c clock \<times> 'v" where
  "advanceTimersByTime exec ms st =
     (let (c, v) = st;
          tickTo = now c + int ms;
          (c', v') = tickLoop exec tickTo (c\<lparr>duringTick := True\<rparr>, v)
      in (c'\<lparr>now := tickTo, duringTick := False\<rparr>, v'))"

text \<open>\<open>jest.useFakeTimers()\<close> at the real time \<open>realNow\<close>: a clock with no pending timer.
  \<open>firstId\<close> is the identifier the first timer is going to get.\<close>

definition useFakeTimers :: "int \<Rightarrow> nat \<Rightarrow> 'c clock" where
  "useFakeTimers realNow firstId =
     \<lparr>now = realNow, timers = [], uniqueTimerId = firstId, duringTick = False\<rparr>"


section \<open>Test 17: an operation of random delay\<close>







section \<open>Test 3 of the state tests: a debounced toggle\<close>

datatype callback3 = ToggleBody

record vars3 =
  isOn :: bool
  toggleCount :: nat
  status_textContent :: string

fun exec3 :: "(callback3, vars3) exec" where
  "exec3 ToggleBody dateNow v =
     (let isOn' = \<not> isOn v
      in (v\<lparr>isOn := isOn', toggleCount := toggleCount v + 1,
            status_textContent := (if isOn' then ''On'' else ''Off'')\<rparr>, []))"

text \<open>\<open>debouncedToggle\<close> keeps the identifier of its pending timer in the variable
  \<open>timeout\<close> of its closure, \<open>undefined\<close> at first.\<close>

definition debouncedToggle ::
  "callback3 clock \<times> nat option \<times> randomSource \<Rightarrow> callback3 clock \<times> nat option \<times> randomSource" where
  "debouncedToggle st =
     (let (c, timeout, s) = st;
          c1 = clearTimeout timeout c;
          (r, s') = Math_random s;
          (timeout', c2) = setTimeout ToggleBody (add (mul r 120) 80) c1
      in (c2, Some timeout', s'))"

text \<open>\<open>n\<close> clicks on the button, one after the other, with no time passing.\<close>

fun clicks ::
  "nat \<Rightarrow> callback3 clock \<times> nat option \<times> randomSource \<Rightarrow> callback3 clock \<times> nat option \<times> randomSource" where
  "clicks 0 st = st"
| "clicks (Suc n) st = clicks n (debouncedToggle st)"

text \<open>The state in which \<open>k \<ge> 1\<close> clicks leave the clock, the closure and the stubbed
  random source: exactly the timer of the last click is pending.\<close>

definition clicked :: "int \<Rightarrow> nat \<Rightarrow> nat \<Rightarrow> (nat \<Rightarrow> number) \<Rightarrow> nat \<Rightarrow>
    callback3 clock \<times> nat option \<times> randomSource" where
  "clicked realNow firstId k g j =
     (\<lparr>now = realNow,
       timers = [\<lparr>timerId = firstId + k - 1, callAt = realNow + 140, func = ToggleBody\<rparr>],
       uniqueTimerId = firstId + k, duringTick = False\<rparr>,
      Some (firstId + k - 1),
      \<lparr>impl = Spy \<lparr>onceQueue = [], returnValue = Some (lit (1/2))\<rparr>, native = g,
       nativeCalls = j\<rparr>)"

text \<open>The test with \<open>n\<close> clicks and the clock advanced by \<open>ms\<close>; the source has 3 and 250.\<close>

definition test3 :: "nat \<Rightarrow> nat \<Rightarrow> int \<Rightarrow> nat \<Rightarrow> randomSource \<Rightarrow> callback3 clock \<times> vars3" where
  "test3 n ms realNow firstId s0 =
     (let c0 = useFakeTimers realNow firstId;
          v0 = \<lparr>isOn = False, toggleCount = 0, status_textContent = ''Off''\<rparr>;
          randomSpy = mockReturnValue (lit (1/2)) (spyOn s0);
          (c1, timeout, s1) = clicks n (c0, None, randomSpy)
      in advanceTimersByTime exec3 ms (c1, v0))"

section \<open>The globals a test can stub\<close>

text \<open>
  \<open>Math.random\<close> and the clock. With real timers \<open>Date.now()\<close> reads the wall clock; once
  \<open>jest.useFakeTimers()\<close> has installed the fake clock, it reads the fake time, until
  \<open>jest.useRealTimers()\<close>.
\<close>

record globals =
  random :: randomSource
  fakeClock :: "int option"
  wallClock :: int

definition Date_now :: "globals \<Rightarrow> int" where
  "Date_now g = (case fakeClock g of Some t \<Rightarrow> t | None \<Rightarrow> wallClock g)"

definition jest_useFakeTimers :: "globals \<Rightarrow> globals" where
  "jest_useFakeTimers g = g\<lparr>fakeClock := Some (Date_now g)\<rparr>"

definition jest_setSystemTime :: "int \<Rightarrow> globals \<Rightarrow> globals" where
  "jest_setSystemTime t g = (case fakeClock g of Some _ \<Rightarrow> g\<lparr>fakeClock := Some t\<rparr> | None \<Rightarrow> g)"

definition jest_useRealTimers :: "globals \<Rightarrow> globals" where
  "jest_useRealTimers g = g\<lparr>fakeClock := None\<rparr>"

text \<open>The local time of a \<open>Date\<close>, in a timezone \<open>tz\<close> minutes east of UTC.\<close>

definition getHours :: "int \<Rightarrow> int \<Rightarrow> int" where
  "getHours tz t = (t + tz * 60000) div 3600000 mod 24"

definition getMinutes :: "int \<Rightarrow> int \<Rightarrow> int" where
  "getMinutes tz t = (t + tz * 60000) div 60000 mod 60"

definition getSeconds :: "int \<Rightarrow> int \<Rightarrow> int" where
  "getSeconds tz t = (t + tz * 60000) div 1000 mod 60"

text \<open>\<open>new Date('2021-01-01T10:00:10Z')\<close> in milliseconds.\<close>

definition date_2021_01_01_10_00_10 :: int where
  "date_2021_01_01_10_00_10 = 1609495210000"

text \<open>
  Test 12 in the timezone \<open>tz\<close>: whether it passed, and the globals it leaves. An
  expectation that fails throws, and the rest of the body does not run.
\<close>

definition test12 :: "int \<Rightarrow> globals \<Rightarrow> bool \<times> globals" where
  "test12 tz g0 =
     (let g = jest_setSystemTime date_2021_01_01_10_00_10 (jest_useFakeTimers g0);
          currentTime = Date_now g;
          currentHour = getHours tz currentTime;
          currentMinute = getMinutes tz currentTime;
          currentSecond = getSeconds tz currentTime;
          mockIsFeatureEnabled = (9 \<le> currentHour \<and> currentHour < 17 \<and> currentMinute mod 2 = 0);
          mockGetTimeBasedMessage =
            (if currentSecond < 30 then ''First half of minute'' else ''Second half of minute'')
      in if \<not> mockIsFeatureEnabled then (False, g)
         else if mockGetTimeBasedMessage \<noteq> ''First half of minute'' then (False, g)
         else if currentMinute \<noteq> 0 then (False, g)
         else (True, jest_useRealTimers g))"

text \<open>
  What the runner does before each test, by the configuration: \<open>resetMocks\<close> takes the
  scripted answers from every spy, \<open>restoreMocks\<close> puts the spied functions back. Neither
  touches the clock, and the randomness tests have no \<open>afterEach\<close>.
\<close>

definition resetAllMocks :: "globals \<Rightarrow> globals" where
  "resetAllMocks g =
     (case impl (random g) of
        Original \<Rightarrow> g
      | Spy m \<Rightarrow> g\<lparr>random := (random g)\<lparr>impl := Spy \<lparr>onceQueue = [], returnValue = None\<rparr>\<rparr>\<rparr>)"

definition restoreAllMocks :: "globals \<Rightarrow> globals" where
  "restoreAllMocks g = g\<lparr>random := mockRestore (random g)\<rparr>"

definition beforeEachTest :: "jestConfig \<Rightarrow> globals \<Rightarrow> globals" where
  "beforeEachTest config g =
     (let g1 = (if resetMocks config then resetAllMocks g else g)
      in if restoreMocks config then restoreAllMocks g1 else g1)"

text \<open>The offset of America/New_York on 1 January 2021, the timezone the setup file names.\<close>

definition America_New_York :: int where
  "America_New_York = - 300"

section \<open>Rounding\<close>

lemma roundTiesToEven_le:
  assumes "y < of_int K + 1/2"
  shows "roundTiesToEven y \<le> K"
proof -
  define f where "f = \<lfloor>y\<rfloor>"
  have fy: "of_int f \<le> y" by (simp add: f_def)
  have r: "roundTiesToEven y =
      (if y - of_int f < 1/2 then f else if 1/2 < y - of_int f then f + 1
       else if even f then f else f + 1)"
    by (simp only: roundTiesToEven_def Let_def f_def)
  show ?thesis
  proof (cases "y - of_int f < 1/2")
    case True
    have "(of_int f :: rat) < of_int K + 1" using fy assms by linarith
    then have "(of_int f :: rat) < of_int (K + 1)" by simp
    then have "f < K + 1" by (simp only: of_int_less_iff)
    with True show ?thesis unfolding r by simp
  next
    case False
    then have "(of_int f :: rat) < of_int K" using assms by linarith
    then have "f < K" by (simp only: of_int_less_iff)
    with False show ?thesis unfolding r by simp
  qed
qed

lemma roundTiesToEven_nonneg:
  assumes "0 \<le> y"
  shows "0 \<le> roundTiesToEven y"
proof -
  have "0 \<le> \<lfloor>y\<rfloor>" using assms by simp
  then show ?thesis by (simp add: roundTiesToEven_def Let_def)
qed

lemma binade_bounds:
  assumes "0 < x"
  shows "2 powi (binade x) \<le> x" and "x < 2 powi (binade x + 1)"
proof -
  obtain p q where pq: "quotient_of x = (p, q)" by (cases "quotient_of x")
  have q: "0 < q" using pq by (rule quotient_of_denom_pos)
  have x: "x = of_int p / of_int q" using pq by (rule quotient_of_div)
  have p: "0 < p" using assms q by (simp add: x zero_less_divide_iff)
  define a where "a = bitlen p"
  define b where "b = bitlen q"
  have a1: "1 \<le> a" and b1: "1 \<le> b" using p q by (simp_all add: a_def b_def bitlen_alt_def)
  from bitlen_bounds [OF p] have "(of_int (2 ^ nat (a - 1)) :: rat) \<le> of_int p"
    and "(of_int p :: rat) < of_int (2 ^ nat a)"
    unfolding a_def by (simp_all only: of_int_le_iff of_int_less_iff)
  then have pl: "(2::rat) powi (a - 1) \<le> of_int p" and pu: "(of_int p :: rat) < 2 powi a"
    using a1 by (simp_all add: power_int_def)
  from bitlen_bounds [OF q] have "(of_int (2 ^ nat (b - 1)) :: rat) \<le> of_int q"
    and "(of_int q :: rat) < of_int (2 ^ nat b)"
    unfolding b_def by (simp_all only: of_int_le_iff of_int_less_iff)
  then have ql: "(2::rat) powi (b - 1) \<le> of_int q" and qu: "(of_int q :: rat) < 2 powi b"
    using b1 by (simp_all add: power_int_def)
  have qpos: "(0::rat) < of_int q" using q by simp
  have lower: "(2::rat) powi (a - b - 1) < x"
  proof -
    have "(2::rat) powi (a - b - 1) * of_int q < 2 powi (a - b - 1) * 2 powi b"
      using qu by (intro mult_strict_left_mono) simp_all
    also have "\<dots> = 2 powi (a - 1)" by (simp flip: power_int_add)
    also have "\<dots> \<le> of_int p" by (rule pl)
    finally show ?thesis using qpos by (simp add: x pos_less_divide_eq)
  qed
  have upper: "x < (2::rat) powi (a - b + 1)"
  proof -
    have "of_int p < (2::rat) powi a" by (rule pu)
    also have "\<dots> = 2 powi (a - b + 1) * 2 powi (b - 1)" by (simp flip: power_int_add)
    also have "\<dots> \<le> 2 powi (a - b + 1) * of_int q"
      using ql by (intro mult_left_mono) simp_all
    finally show ?thesis using qpos by (simp add: x pos_divide_less_eq)
  qed
  have bin: "binade x = (if 2 powi (a - b) \<le> x then a - b else a - b - 1)"
    by (simp add: binade_def pq a_def b_def Let_def)
  show "2 powi (binade x) \<le> x" using lower by (simp add: bin)
  show "x < 2 powi (binade x + 1)" using upper by (simp add: bin not_le)
qed

lemma ulp_pos: "0 < ulp x"
  by (simp add: ulp_def)

lemma fl_nonneg:
  assumes "0 \<le> x"
  shows "0 \<le> fl x"
proof -
  have "0 \<le> x / ulp x" using assms ulp_pos [of x] by simp
  then have "0 \<le> roundTiesToEven (x / ulp x)" by (rule roundTiesToEven_nonneg)
  then show ?thesis using ulp_pos [of x] by (simp add: fl_def)
qed

text \<open>A product of a number at most \<open>1 - 2^-53\<close> with a positive integer up to \<open>2^53\<close>
  rounds to a number below that integer.\<close>

lemma fl_scaled_below:
  assumes r0: "0 \<le> r" and r1: "r \<le> 1 - 1 / 2 ^ 53"
    and n1: "1 \<le> n" and n53: "n \<le> 2 ^ 53"
  shows "fl (r * of_nat n) < of_nat n"
proof (cases "r * of_nat n = 0")
  case True
  then show ?thesis using n1 by (simp add: fl_def)
next
  case False
  define x where "x = r * rat_of_nat n"
  have npos: "(0::rat) < of_nat n" using n1 by simp
  have "0 \<le> x" unfolding x_def using r0 npos by (intro mult_nonneg_nonneg) simp_all
  moreover have "x \<noteq> 0" using False by (simp only: x_def not_False_eq_True)
  ultimately have xpos: "0 < x" by linarith
  have xle: "x \<le> of_nat n - of_nat n / 2 ^ 53"
  proof -
    have "x \<le> (1 - 1 / 2 ^ 53) * of_nat n"
      unfolding x_def using r1 npos by (intro mult_right_mono) simp_all
    then show ?thesis by (simp add: algebra_simps)
  qed
  have "(0::rat) < of_nat n / 2 ^ 53" using npos by (intro divide_pos_pos) simp_all
  then have xn: "x < of_nat n" using xle by linarith
  define e where "e = max (binade x) (- 1022)"
  define u where "u = (2::rat) powi (e - 52)"
  have upos: "0 < u" by (simp add: u_def)
  have ulp: "ulp x = u" using xpos by (simp add: ulp_def u_def e_def)
  have lo: "(2::rat) powi e < of_nat n"
  proof (cases "binade x \<le> - 1022")
    case True
    then have "e = - 1022" by (simp add: e_def)
    moreover have "(2::rat) powi (- 1022) \<le> 2 powi 0"
      by (intro power_int_increasing) simp_all
    moreover have "(1::rat) \<le> of_nat n" using n1 by simp
    moreover have "(2::rat) powi (- 1022) \<noteq> 1" by (simp add: power_int_minus_divide)
    ultimately show ?thesis by simp
  next
    case False
    then have "e = binade x" by (simp add: e_def)
    then show ?thesis using binade_bounds(1) [OF xpos] xn by simp
  qed
  have e52: "e \<le> 52"
  proof -
    have "(of_nat n :: rat) \<le> of_nat (2 ^ 53)" using n53 by (simp only: of_nat_le_iff)
    then have "(2::rat) powi e < 2 powi 53" using lo by simp
    then have "e < 53" by (intro power_int_le_imp_less_exp [of "2::rat"]) simp_all
    then show ?thesis by simp
  qed
  define N where "N = int n * 2 ^ nat (52 - e)"
  have N: "of_nat n / u = of_int N"
  proof -
    have "(1::rat) / u = 2 powi (52 - e)"
      by (simp add: u_def power_int_minus_divide [symmetric])
    also have "\<dots> = 2 ^ nat (52 - e)" using e52 by (simp add: power_int_def)
    finally have "(1::rat) / u = 2 ^ nat (52 - e)" .
    then have "of_nat n / u = of_nat n * (2::rat) ^ nat (52 - e)"
      by (simp add: divide_inverse)
    then show ?thesis by (simp add: N_def)
  qed
  have half: "1 / 2 < of_nat n / 2 ^ 53 / u"
  proof -
    have "(2::rat) powi (e - 52 + 53) = 2 powi (e - 52) * 2 powi 53"
      by (rule power_int_add) simp
    then have "u * 2 ^ 53 = 2 powi (e + 1)" by (simp add: u_def add.commute)
    also have "\<dots> = 2 powi e * 2" by (simp add: power_int_add)
    finally have eq: "u * 2 ^ 53 = 2 powi e * 2" .
    define w where "w = (2::rat) powi e"
    have w: "0 < w" "w < of_nat n" using lo by (simp_all add: w_def)
    have "of_nat n / 2 ^ 53 / u = of_nat n / (u * 2 ^ 53)"
      by (simp only: divide_divide_eq_left mult.commute)
    also have "\<dots> = of_nat n / (w * 2)" by (simp only: eq w_def)
    finally have a: "of_nat n / 2 ^ 53 / u = of_nat n / (w * 2)" .
    have "1 / 2 < of_nat n / (w * 2)"
      using w by (simp add: pos_less_divide_eq)
    also have "of_nat n / (w * 2) = of_nat n / 2 ^ 53 / u" by (rule a [symmetric])
    finally show ?thesis .
  qed
  define c where "c = rat_of_nat n / 2 ^ 53"
  have xc: "x \<le> of_nat n - c" using xle by (simp only: c_def)
  have hc: "1 / 2 < c / u" using half by (simp only: c_def)
  have "x / u \<le> (of_nat n - c) / u"
    by (rule divide_right_mono) (use xc upos in simp_all)
  also have "\<dots> = of_int N - c / u"
    by (simp only: diff_divide_distrib N)
  also have "\<dots> < of_int N - 1 / 2" using hc by linarith
  finally have "x / u < of_int (N - 1) + 1 / 2" by simp
  then have "roundTiesToEven (x / u) \<le> N - 1" by (rule roundTiesToEven_le)
  then have "roundTiesToEven (x / u) < N" by simp
  then have "rat_of_int (roundTiesToEven (x / u)) < of_int N" by (simp only: of_int_less_iff)
  then have "of_int (roundTiesToEven (x / u)) * u < of_int N * u"
    using upos by (simp add: mult_strict_right_mono)
  also have "of_int N * u = of_nat n" using N upos by (simp add: field_simps)
  finally show ?thesis using xpos by (simp add: fl_def ulp x_def [symmetric])
qed

lemma unitDraw_le:
  assumes "unitDraw r"
  shows "0 \<le> r" and "r \<le> 1 - 1 / 2 ^ 53"
proof -
  from assms have d: "fl r = r" and r0: "0 \<le> r" and r1: "r < 1"
    by (simp_all add: unitDraw_def is_double_def)
  show "0 \<le> r" by (rule r0)
  show "r \<le> 1 - 1 / 2 ^ 53"
  proof (cases "r = 0")
    case True
    then show ?thesis by simp
  next
    case False
    then have rpos: "0 < r" using r0 by simp
    have "(2::rat) powi (binade r) < 2 powi 0"
      using binade_bounds(1) [OF rpos] r1 by simp
    then have b: "binade r < 0" by (intro power_int_le_imp_less_exp [of "2::rat"]) simp_all
    show ?thesis
    proof (cases "binade r = - 1")
      case True
      then have u: "ulp r = 1 / 2 ^ 53" using rpos by (simp add: ulp_def power_int_minus_divide)
      define m where "m = roundTiesToEven (r / ulp r)"
      have r: "r = of_int m / 2 ^ 53" using d False by (simp add: fl_def m_def u)
      then have "rat_of_int m < 2 ^ 53" using r1 by simp
      then have "rat_of_int m < of_int (2 ^ 53)" by simp
      then have "m < 2 ^ 53" by (simp only: of_int_less_iff)
      then have "m \<le> 2 ^ 53 - 1" by simp
      then have "rat_of_int m \<le> of_int (2 ^ 53 - 1)" by (simp only: of_int_le_iff)
      then have "rat_of_int m / 2 ^ 53 \<le> (2 ^ 53 - 1) / 2 ^ 53"
        by (simp add: divide_right_mono)
      then show ?thesis using r by (simp add: diff_divide_distrib)
    next
      case False
      with b have "binade r + 1 \<le> - 1" by simp
      then have "(2::rat) powi (binade r + 1) \<le> 2 powi (- 1)"
        by (intro power_int_increasing) simp_all
      then have "r < 1 / 2" using binade_bounds(2) [OF rpos] by simp
      then show ?thesis by simp
    qed
  qed
qed

lemma floor_scaled_draw:
  assumes "unitDraw r" and "1 \<le> n" and "n \<le> 2 ^ 53"
  shows "0 \<le> Math_floor (mul r (of_nat n))" and "Math_floor (mul r (of_nat n)) < int n"
proof -
  have "0 \<le> r * of_nat n" using unitDraw_le(1) [OF assms(1)] by simp
  then have "0 \<le> fl (r * of_nat n)" by (rule fl_nonneg)
  then show "0 \<le> Math_floor (mul r (of_nat n))" by (simp add: Math_floor_def mul_def)
  have "fl (r * of_nat n) < of_nat n"
    using unitDraw_le [OF assms(1)] assms(2,3) by (rule fl_scaled_below)
  then have "fl (r * of_nat n) < of_int (int n)" by simp
  then show "Math_floor (mul r (of_nat n)) < int n"
    by (simp only: Math_floor_def mul_def floor_less_iff)
qed

section \<open>Scripted stubs\<close>

lemma forEach_queue:
  "forEach_mockReturnValueOnce vs (s\<lparr>impl := Spy \<lparr>onceQueue = q, returnValue = d\<rparr>\<rparr>)
     = s\<lparr>impl := Spy \<lparr>onceQueue = q @ vs, returnValue = d\<rparr>\<rparr>"
  unfolding forEach_mockReturnValueOnce_def
  by (induction vs arbitrary: q) (simp_all add: mockReturnValueOnce_def)

lemma draws_queue:
  "n \<le> length vs \<Longrightarrow>
     draws n (s\<lparr>impl := Spy \<lparr>onceQueue = vs, returnValue = d\<rparr>\<rparr>)
       = (take n vs, s\<lparr>impl := Spy \<lparr>onceQueue = drop n vs, returnValue = d\<rparr>\<rparr>)"
proof (induction n arbitrary: vs)
  case 0
  show ?case by simp
next
  case (Suc n)
  then obtain v vs' where vs: "vs = v # vs'" by (cases vs) auto
  with Suc.prems have "n \<le> length vs'" by simp
  from Suc.IH [OF this] show ?case
    by (simp add: vs Math_random_def)
qed

text \<open>
  C4. A spy scripted with the values \<open>vs\<close> answers its first \<open>n \<le> length vs\<close> calls with
  the first \<open>n\<close> values of \<open>vs\<close>, in order, and keeps the rest queued, whatever the engine's
  generator \<open>g\<close> would have returned and however often it had been called before. In test 11
  the three calls of \<open>mockGenerateScore\<close> return 86, 12 and 42, in that order, for every
  generator.
\<close>

theorem scripted_stub_in_order:
  assumes "n \<le> length vs"
  shows "fst (draws n (forEach_mockReturnValueOnce vs
                 (spyOn \<lparr>impl = Original, native = g, nativeCalls = k\<rparr>))) = take n vs
       \<and> impl (snd (draws n (forEach_mockReturnValueOnce vs
                 (spyOn \<lparr>impl = Original, native = g, nativeCalls = k\<rparr>))))
           = Spy \<lparr>onceQueue = drop n vs, returnValue = None\<rparr>
       \<and> fst (test11_scores \<lparr>impl = Original, native = g, nativeCalls = k\<rparr>) = [86, 12, 42]"
proof -
  let ?s = "\<lparr>impl = Original, native = g, nativeCalls = k\<rparr>"
  have "spyOn ?s = ?s\<lparr>impl := Spy \<lparr>onceQueue = [], returnValue = None\<rparr>\<rparr>"
    by (simp add: spyOn_def)
  then have "draws n (forEach_mockReturnValueOnce vs (spyOn ?s))
      = (take n vs, ?s\<lparr>impl := Spy \<lparr>onceQueue = drop n vs, returnValue = None\<rparr>\<rparr>)"
    using draws_queue [OF assms, where s = ?s and d = None]
      forEach_queue [where vs = vs and s = ?s and q = "[]" and d = None] by simp
  moreover have "fst (test11_scores ?s) = [86, 12, 42]"
    by code_simp
  ultimately show ?thesis by simp
qed

theorem scripted_stub_in_order_witness:
  "(2::nat) \<le> length [lit (86/100), lit (12/100), lit (42/100)]
   \<and> fst (draws 2 (forEach_mockReturnValueOnce [lit (86/100), lit (12/100), lit (42/100)]
                 (spyOn \<lparr>impl = Original, native = (\<lambda>i. 0), nativeCalls = 0\<rparr>)))
       = [lit (86/100), lit (12/100)]
   \<and> fst (test11_scores \<lparr>impl = Original, native = (\<lambda>i. 0), nativeCalls = 0\<rparr>) = [86, 12, 42]"
  using scripted_stub_in_order [of 2 "[lit (86/100), lit (12/100), lit (42/100)]" "\<lambda>i. 0" 0]
  by simp

text \<open>
  C1. The threshold below which a draw is rare, \<open>0.05 + 0.25\<close>, is the number \<open>0.3\<close>, and
  test 18, run on its scripted sequence of 20 values, counts 13 common, 6 rare and
  1 legendary, for every generator.
\<close>

theorem weighted_select_counts:
  "add weights_legendary weights_rare = lit (3/10)
   \<and> fst (test18_results \<lparr>impl = Original, native = g, nativeCalls = k\<rparr>)
       = [(''common'', 13), (''rare'', 6), (''legendary'', 1)]"
  by code_simp

text \<open>
  C2. With \<open>Math.random\<close> stubbed to the constant 0, \<open>mockShuffle\<close> applied to
  \<open>[1, 2, 3, 4, 5]\<close> returns a reference to the array \<open>[2, 3, 4, 5, 1]\<close>.
\<close>

theorem shuffle_constant_zero:
  "(case test13_shuffled1 \<lparr>impl = Original, native = g, nativeCalls = k\<rparr> of
      Inl e \<Rightarrow> False
    | Inr (shuffled1, h, s') \<Rightarrow> deref h shuffled1 = Some (map Some [2, 3, 4, 5, 1]))"
  by code_simp

section \<open>Sources of unit draws\<close>

lemma unitDraw_half: "unitDraw (1/2)"
  unfolding unitDraw_def is_double_def by code_simp

lemma Math_random_unit:
  assumes "returnsUnitDraws s" and "Math_random s = (r, s')"
  shows "unitDraw r" and "returnsUnitDraws s'"
proof -
  have step: "fst (draws (Suc n) s) = r # fst (draws n s')" for n
    using assms(2) by (simp add: split_def Let_def)
  from assms(1) have "\<forall>v \<in> set (fst (draws (Suc 0) s)). unitDraw v"
    unfolding returnsUnitDraws_def by blast
  then show "unitDraw r" by (simp only: step) simp
  show "returnsUnitDraws s'"
    unfolding returnsUnitDraws_def
  proof (intro allI ballI)
    fix n v
    assume "v \<in> set (fst (draws n s'))"
    then have "v \<in> set (fst (draws (Suc n) s))" by (simp only: step) simp
    with assms(1) show "unitDraw v" unfolding returnsUnitDraws_def by blast
  qed
qed

lemma engine_returnsUnitDraws:
  assumes "\<And>i. unitDraw (g i)"
  shows "returnsUnitDraws \<lparr>impl = Original, native = g, nativeCalls = k\<rparr>"
proof -
  have "\<forall>v \<in> set (fst (draws n \<lparr>impl = Original, native = g, nativeCalls = k\<rparr>)). unitDraw v"
    for n k
  proof (induction n arbitrary: k)
    case 0
    show ?case by simp
  next
    case (Suc n)
    show ?case using Suc [of "Suc k"] assms
      by (simp add: Math_random_def callOriginal_def split_def Let_def)
  qed
  then show ?thesis unfolding returnsUnitDraws_def by blast
qed

lemma swap_dense:
  assumes i: "i < length ys" and j0: "0 \<le> j" and ji: "nat j \<le> i"
  shows "setIndex (setIndex (map Some ys) (int i) (getIndex (map Some ys) j)) j
            (getIndex (map Some ys) (int i))
         = map Some (ys[i := ys ! nat j, nat j := ys ! i])"
proof -
  have j: "nat j < length ys" using i ji by simp
  show ?thesis using i j j0
    by (simp add: setIndex_def getIndex_def map_update)
qed

lemma shuffleLoop_permutes:
  assumes "returnsUnitDraws s" and "shuffled < length h" and "h ! shuffled = map Some ys"
    and "i = 0 \<or> i < length ys" and "length ys \<le> 2 ^ 53"
  shows "\<exists>ys'. fst (shuffleLoop shuffled i (h, s)) = h[shuffled := map Some ys']
              \<and> mset ys' = mset ys"
  using assms
proof (induction i arbitrary: h s ys)
  case 0
  have "h = h[shuffled := map Some ys]" using 0 by (metis list_update_id)
  then show ?case by auto
next
  case (Suc i')
  obtain r s' where rs: "Math_random s = (r, s')" by (cases "Math_random s")
  have u: "unitDraw r" and s': "returnsUnitDraws s'"
    using Math_random_unit [OF Suc.prems(1) rs] by simp_all
  define j where "j = Math_floor (mul r (of_nat (Suc i' + 1)))"
  have i: "Suc i' < length ys" using Suc.prems(4) by simp
  have "Suc i' + 1 \<le> 2 ^ 53" using i Suc.prems(5) by simp
  from floor_scaled_draw [OF u _ this] have j0: "0 \<le> j" and ji: "nat j \<le> Suc i'"
    by (simp_all add: j_def)
  define zs where "zs = ys[Suc i' := ys ! nat j, nat j := ys ! Suc i']"
  have jl: "nat j < length ys" using i ji by simp
  have perm: "mset zs = mset ys" unfolding zs_def using i jl by (simp add: mset_swap)
  have len: "length zs = length ys" by (simp add: zs_def)
  define h' where "h' = h[shuffled := map Some zs]"
  have d: "deref h shuffled = Some (map Some ys)"
    using Suc.prems(2,3) by (simp add: deref_def)
  have unfold: "shuffleLoop shuffled (Suc i') (h, s) = shuffleLoop shuffled i' (h', s')"
    by (simp only: shuffleLoop.simps Let_def rs prod.case d option.case j_def [symmetric]
        swap_dense [OF i j0 ji] zs_def h'_def)
  have "\<exists>ys'. fst (shuffleLoop shuffled i' (h', s')) = h'[shuffled := map Some ys']
              \<and> mset ys' = mset zs"
  proof (rule Suc.IH [OF s'])
    show "shuffled < length h'" using Suc.prems(2) by (simp add: h'_def)
    show "h' ! shuffled = map Some zs" using Suc.prems(2) by (simp add: h'_def)
    show "i' = 0 \<or> i' < length zs" using i len by simp
    show "length zs \<le> 2 ^ 53" using Suc.prems(5) len by simp
  qed
  then obtain ys' where "fst (shuffleLoop shuffled i' (h', s')) = h'[shuffled := map Some ys']"
    and "mset ys' = mset zs" by blast
  then have "fst (shuffleLoop shuffled (Suc i') (h, s)) = h[shuffled := map Some ys']
      \<and> mset ys' = mset ys"
    by (simp only: unfold h'_def list_update_overwrite perm)
  then show ?case by blast
qed

text \<open>
  C8. For an array \<open>xs\<close> of defined elements (an array holds fewer than \<open>2^32\<close>) and a random
  source that returns binary64 values in \<open>[0, 1)\<close>, \<open>mockShuffle\<close> returns a reference to a
  new array that is a rearrangement of \<open>xs\<close>: same length, same multiset of elements, equal
  when both are sorted by a linear order on the elements. The argument array, and every
  other array of the heap, is as it was.
\<close>

theorem shuffle_rearranges:
  fixes xs :: "'a::linorder list"
  assumes "deref h array = Some (map Some xs)" and "length xs < 2 ^ 32"
    and "returnsUnitDraws s"
  shows "\<exists>shuffled h' s' ys.
           mockShuffle array (h, s) = Inr (shuffled, h', s')
         \<and> deref h' shuffled = Some (map Some ys)
         \<and> length ys = length xs \<and> mset ys = mset xs \<and> sort ys = sort xs
         \<and> shuffled \<noteq> array \<and> deref h' array = Some (map Some xs)
         \<and> (\<forall>p < length h. deref h' p = deref h p)"
proof -
  from assms(1) have a: "array < length h" and ha: "h ! array = map Some xs"
    by (simp_all add: deref_def split: if_splits)
  define h1 where "h1 = h @ [map Some xs]"
  define i where "i = length (map Some xs) - 1"
  have "\<exists>ys. fst (shuffleLoop (length h) i (h1, s)) = h1[length h := map Some ys]
              \<and> mset ys = mset xs"
  proof (rule shuffleLoop_permutes [OF assms(3)])
    show "length h < length h1" by (simp add: h1_def)
    show "h1 ! length h = map Some xs" by (simp add: h1_def)
    show "i = 0 \<or> i < length xs" by (cases xs) (simp_all add: i_def)
    have "(2::nat) ^ 32 \<le> 2 ^ 53" by simp
    then show "length xs \<le> 2 ^ 53" using assms(2) by linarith
  qed
  then obtain ys where loop: "fst (shuffleLoop (length h) i (h1, s)) = h1[length h := map Some ys]"
    and perm: "mset ys = mset xs" by blast
  define h' where "h' = h @ [map Some ys]"
  have h': "h1[length h := map Some ys] = h'" by (simp add: h1_def h'_def)
  obtain s' where run: "shuffleLoop (length h) i (h1, s) = (h', s')"
    using loop h' by (cases "shuffleLoop (length h) i (h1, s)") simp
  have m: "mockShuffle array (h, s) = Inr (length h, h', s')"
    using run by (simp add: mockShuffle_def assms(1) Let_def h1_def i_def)
  have d: "deref h' (length h) = Some (map Some ys)" by (simp add: deref_def h'_def)
  have l: "length ys = length xs" using perm by (rule mset_eq_length)
  have srt: "sort ys = sort xs" using perm by (simp add: properties_for_sort)
  have ne: "length h \<noteq> array" using a by simp
  have same: "deref h' p = deref h p" if "p < length h" for p
    using that by (simp add: deref_def h'_def nth_append)
  have inp: "deref h' array = Some (map Some xs)" using same [OF a] assms(1) by simp
  show ?thesis
  proof (intro exI conjI allI impI)
    show "mockShuffle array (h, s) = Inr (length h, h', s')" by (rule m)
    show "deref h' (length h) = Some (map Some ys)" by (rule d)
    show "length ys = length xs" by (rule l)
    show "mset ys = mset xs" by (rule perm)
    show "sort ys = sort xs" by (rule srt)
    show "length h \<noteq> array" by (rule ne)
    show "deref h' array = Some (map Some xs)" by (rule inp)
    show "deref h' p = deref h p" if "p < length h" for p using that by (rule same)
  qed
qed


theorem shuffle_rearranges_witness:
  "deref [originalArray] 0 = Some (map Some [1, 2, 3, 4, 5 :: rat])
   \<and> length [1, 2, 3, 4, 5 :: rat] < 2 ^ 32
   \<and> returnsUnitDraws \<lparr>impl = Original, native = (\<lambda>i. 1/2), nativeCalls = 0\<rparr>
   \<and> (\<exists>shuffled h' s' ys.
           mockShuffle 0 ([originalArray], \<lparr>impl = Original, native = (\<lambda>i. 1/2), nativeCalls = 0\<rparr>)
             = Inr (shuffled, h', s')
         \<and> deref h' shuffled = Some (map Some ys)
         \<and> length ys = length [1, 2, 3, 4, 5 :: rat] \<and> mset ys = mset [1, 2, 3, 4, 5 :: rat]
         \<and> sort ys = sort [1, 2, 3, 4, 5]
         \<and> shuffled \<noteq> 0 \<and> deref h' 0 = Some (map Some [1, 2, 3, 4, 5])
         \<and> (\<forall>p < length [originalArray]. deref h' p = deref [originalArray] p))"
proof -
  have d: "deref [originalArray] 0 = Some (map Some [1, 2, 3, 4, 5 :: rat])"
    by (simp add: deref_def originalArray_def)
  have l: "length [1, 2, 3, 4, 5 :: rat] < 2 ^ 32" by simp
  have u: "returnsUnitDraws \<lparr>impl = Original, native = (\<lambda>i. 1/2), nativeCalls = 0\<rparr>"
    by (rule engine_returnsUnitDraws) (rule unitDraw_half)
  from shuffle_rearranges [OF d l u] d l u show ?thesis by blast
qed

lemma mockGenerateId_range:
  assumes "returnsUnitDraws s" and "mockGenerateId s = (ident, s')"
  shows "ident \<in> toString ` {0..<100}" and "returnsUnitDraws s'"
proof -
  obtain r where rs: "Math_random s = (r, s')" and ident: "ident = toString (Math_floor (mul r 100))"
    using assms(2) by (auto simp: mockGenerateId_def Let_def split: prod.splits)
  have u: "unitDraw r" and "returnsUnitDraws s'"
    using Math_random_unit [OF assms(1) rs] by simp_all
  then show "returnsUnitDraws s'" by simp
  have "(100::nat) \<le> 2 ^ 53" by simp
  from floor_scaled_draw [OF u _ this]
  have "0 \<le> Math_floor (mul r 100)" and "Math_floor (mul r 100) < 100" by simp_all
  then show "ident \<in> toString ` {0..<100}" by (simp add: ident)
qed

lemma test15_loop_invariant:
  assumes "returnsUnitDraws s" and "distinct ids" and "set ids \<subseteq> toString ` {0..<100}"
  shows "distinct (fst (test15_loop n (ids, s)))
       \<and> set (fst (test15_loop n (ids, s))) \<subseteq> toString ` {0..<100}"
  using assms
proof (induction n arbitrary: ids s)
  case 0
  then show ?case by simp
next
  case (Suc n)
  obtain ident s' where g: "mockGenerateId s = (ident, s')" by (cases "mockGenerateId s")
  from mockGenerateId_range [OF Suc.prems(1) g]
  have r: "ident \<in> toString ` {0..<100}" and s': "returnsUnitDraws s'" by simp_all
  have "distinct (Set_add ident ids)" using Suc.prems(2) by (simp add: Set_add_def)
  moreover have "set (Set_add ident ids) \<subseteq> toString ` {0..<100}"
    using Suc.prems(3) r by (simp add: Set_add_def)
  ultimately show ?case using Suc.IH [OF s'] by (simp add: g)
qed

text \<open>
  C3. For a random source that returns binary64 values in \<open>[0, 1)\<close>, the set of the 150
  identifiers generated by test 15 has fewer than 150 members, and at most 100.
\<close>

theorem generated_ids_collide:
  assumes "returnsUnitDraws s"
  shows "Set_size (test15_generatedIds s) < 150 \<and> Set_size (test15_generatedIds s) \<le> 100"
proof -
  let ?ids = "test15_generatedIds s"
  from test15_loop_invariant [OF assms, of "[]" 150]
  have d: "distinct ?ids" and sub: "set ?ids \<subseteq> toString ` {0..<100}"
    by (simp_all add: test15_generatedIds_def)
  have "length ?ids = card (set ?ids)" using d by (simp add: distinct_card)
  also have "\<dots> \<le> card (toString ` {0..<100::int})" using sub by (intro card_mono) simp_all
  also have "\<dots> \<le> card {0..<100::int}" by (rule card_image_le) simp
  also have "\<dots> = 100" by simp
  finally show ?thesis by (simp add: Set_size_def)
qed

theorem generated_ids_collide_witness:
  "returnsUnitDraws \<lparr>impl = Original, native = (\<lambda>i. 1/2), nativeCalls = 0\<rparr>
   \<and> Set_size (test15_generatedIds \<lparr>impl = Original, native = (\<lambda>i. 1/2), nativeCalls = 0\<rparr>) < 150
   \<and> Set_size (test15_generatedIds \<lparr>impl = Original, native = (\<lambda>i. 1/2), nativeCalls = 0\<rparr>) \<le> 100"
proof -
  have u: "returnsUnitDraws \<lparr>impl = Original, native = (\<lambda>i. 1/2), nativeCalls = 0\<rparr>"
    by (rule engine_returnsUnitDraws) (rule unitDraw_half)
  from generated_ids_collide [OF u] u show ?thesis by simp
qed

section \<open>Configuration and retry\<close>



lemma retryLoop_unfold:
  "i < m \<Longrightarrow> retryLoop os m i i =
     (if i < length os \<and> os ! i then (Inr (Some \<lparr>success = True, attempts = Suc i\<rparr>), Suc i)
      else if Suc i = m then (Inl (Error (''Attempt '' @ decimal (Suc i) @ '' failed'')), Suc i)
      else retryLoop os m (Suc i) (Suc i))"
  by (subst retryLoop.simps) (auto simp: mockUnreliableApi_def Let_def)

lemma retryLoop_all_fail:
  assumes "i < m" and "\<forall>k. i \<le> k \<and> k < m \<longrightarrow> \<not> (k < length os \<and> os ! k)"
  shows "retryLoop os m i i = (Inl (Error (''Attempt '' @ decimal m @ '' failed'')), m)"
  using assms
proof (induction "m - i" arbitrary: i)
  case 0
  then show ?case by simp
next
  case (Suc d)
  have here: "\<not> (i < length os \<and> os ! i)" using Suc.prems by auto
  show ?case
  proof (cases "Suc i = m")
    case True
    then show ?thesis using here
      by (simp add: retryLoop_unfold [OF Suc.prems(1)] del: decimal.simps)
  next
    case False
    then have "Suc i < m" using Suc.prems(1) by simp
    moreover have "d = m - Suc i" using Suc.hyps(2) by simp
    moreover have "\<forall>k. Suc i \<le> k \<and> k < m \<longrightarrow> \<not> (k < length os \<and> os ! k)"
      using Suc.prems(2) by auto
    ultimately have "retryLoop os m (Suc i) (Suc i)
        = (Inl (Error (''Attempt '' @ decimal m @ '' failed'')), m)"
      using Suc.hyps(1) by blast
    then show ?thesis using here False
      by (simp add: retryLoop_unfold [OF Suc.prems(1)] del: decimal.simps)
  qed
qed

lemma retryLoop_first_success:
  assumes "i \<le> k" and "k < m" and "k < length os \<and> os ! k"
    and "\<forall>k'. i \<le> k' \<and> k' < k \<longrightarrow> \<not> (k' < length os \<and> os ! k')"
  shows "retryLoop os m i i = (Inr (Some \<lparr>success = True, attempts = Suc k\<rparr>), Suc k)"
  using assms
proof (induction "k - i" arbitrary: i)
  case 0
  then have "i = k" by simp
  then show ?case using "0.prems"(2,3) by (simp add: retryLoop_unfold [of k m])
next
  case (Suc d)
  then have ik: "i < k" by simp
  then have here: "\<not> (i < length os \<and> os ! i)" using Suc.prems(4) by auto
  have im: "i < m" "Suc i \<noteq> m" using ik Suc.prems(2) by simp_all
  have "retryLoop os m (Suc i) (Suc i) = (Inr (Some \<lparr>success = True, attempts = Suc k\<rparr>), Suc k)"
  proof (rule Suc.hyps(1))
    show "d = k - Suc i" using Suc.hyps(2) by simp
    show "Suc i \<le> k" using ik by simp
    show "k < m" by (rule Suc.prems(2))
    show "k < length os \<and> os ! k" by (rule Suc.prems(3))
    show "\<forall>k'. Suc i \<le> k' \<and> k' < k \<longrightarrow> \<not> (k' < length os \<and> os ! k')"
      using Suc.prems(4) by auto
  qed
  then show ?case using here im(2) by (auto simp add: retryLoop_unfold [OF im(1)] simp del: decimal.simps)
qed

lemma retryLoop_count:
  assumes "i \<le> m"
  shows "snd (retryLoop os m i i) \<le> m"
  using assms
proof (induction "m - i" arbitrary: i)
  case 0
  then have "i = m" by simp
  then show ?case by (subst retryLoop.simps) simp
next
  case (Suc d)
  then have im: "i < m" by simp
  have "snd (retryLoop os m (Suc i) (Suc i)) \<le> m"
    using Suc.hyps im by (intro Suc.hyps(1)) simp_all
  then show ?case using im by (simp add: retryLoop_unfold [OF im] del: decimal.simps)
qed

text \<open>
  C10. With \<open>maxRetries \<ge> 1\<close> and the call counter at 0, \<open>mockRetryRequest\<close> calls the API at
  most \<open>maxRetries\<close> times. If attempt \<open>k + 1 \<le> maxRetries\<close> is the first that the script lets
  succeed, it resolves with that attempt's response, \<open>attempts = k + 1\<close>, after \<open>k + 1\<close> calls.
  If the script lets none of the first \<open>maxRetries\<close> attempts succeed, it rejects with the
  error of attempt \<open>maxRetries\<close>, after \<open>maxRetries\<close> calls. With the outcomes
  fail, fail, succeed and \<open>maxRetries = 3\<close> it resolves with \<open>success = true\<close> and
  \<open>attempts = 3\<close> after 3 calls.
\<close>

theorem retry_within_limit:
  assumes "1 \<le> maxRetries"
  shows "snd (mockRetryRequest outcomes maxRetries 0) \<le> maxRetries
       \<and> (\<forall>k < maxRetries.
             k < length outcomes \<and> outcomes ! k
             \<and> (\<forall>k' < k. \<not> (k' < length outcomes \<and> outcomes ! k'))
             \<longrightarrow> mockRetryRequest outcomes maxRetries 0
                   = (Inr (Some \<lparr>success = True, attempts = Suc k\<rparr>), Suc k))
       \<and> ((\<forall>k < maxRetries. \<not> (k < length outcomes \<and> outcomes ! k))
             \<longrightarrow> mockRetryRequest outcomes maxRetries 0
                   = (Inl (Error (''Attempt '' @ decimal maxRetries @ '' failed'')), maxRetries))
       \<and> mockRetryRequest [False, False, True] 3 0
             = (Inr (Some \<lparr>success = True, attempts = 3\<rparr>), 3)"
proof (intro conjI allI impI)
  show "snd (mockRetryRequest outcomes maxRetries 0) \<le> maxRetries"
    unfolding mockRetryRequest_def by (rule retryLoop_count) simp
next
  fix k
  assume "k < maxRetries"
    and "k < length outcomes \<and> outcomes ! k
         \<and> (\<forall>k' < k. \<not> (k' < length outcomes \<and> outcomes ! k'))"
  then show "mockRetryRequest outcomes maxRetries 0
      = (Inr (Some \<lparr>success = True, attempts = Suc k\<rparr>), Suc k)"
    unfolding mockRetryRequest_def by (intro retryLoop_first_success) auto
next
  assume "\<forall>k < maxRetries. \<not> (k < length outcomes \<and> outcomes ! k)"
  then show "mockRetryRequest outcomes maxRetries 0
      = (Inl (Error (''Attempt '' @ decimal maxRetries @ '' failed'')), maxRetries)"
    unfolding mockRetryRequest_def using assms by (intro retryLoop_all_fail) auto
next
  show "mockRetryRequest [False, False, True] 3 0
      = (Inr (Some \<lparr>success = True, attempts = 3\<rparr>), 3)"
    by code_simp
qed

theorem retry_within_limit_witness:
  "(1::nat) \<le> 3
   \<and> snd (mockRetryRequest [False, True] 3 0) \<le> 3
   \<and> mockRetryRequest [False, True] 3 0 = (Inr (Some \<lparr>success = True, attempts = 2\<rparr>), 2)
   \<and> mockRetryRequest [False, False, False, True] 3 0 = (Inl (Error ''Attempt 3 failed''), 3)"
proof -
  have m: "(1::nat) \<le> 3" by simp
  have a: "(1::nat) < 3 \<and> 1 < length [False, True] \<and> [False, True] ! 1
      \<and> (\<forall>k' < 1. \<not> (k' < length [False, True] \<and> [False, True] ! k'))" by simp
  have b: "\<forall>k < 3. \<not> (k < length [False, False, False, True] \<and> [False, False, False, True] ! k)"
    by (simp add: less_Suc_eq numeral_3_eq_3)
  have d: "decimal 3 = ''3''" by code_simp
  note t = retry_within_limit [OF m, of "[False, True]"]
  note t' = retry_within_limit [OF m, of "[False, False, False, True]"]
  have "snd (mockRetryRequest [False, True] 3 0) \<le> 3" using t by blast
  moreover have "mockRetryRequest [False, True] 3 0
      = (Inr (Some \<lparr>success = True, attempts = Suc 1\<rparr>), Suc 1)" using t a by blast
  moreover have "mockRetryRequest [False, False, False, True] 3 0
      = (Inl (Error (''Attempt '' @ decimal 3 @ '' failed'')), 3)" using t' b by blast
  ultimately show ?thesis by (simp add: d del: decimal.simps)
qed

section \<open>Virtual time\<close>




lemma rounding_reaches_300: "add (mul (1 - 1 / 2 ^ 53) 200) 100 = 300"
  by code_simp















section \<open>Debouncing\<close>

lemma delay3_stubbed: "add (mul (lit (1/2)) 120) 80 = 140"
  by code_simp

lemma first_click:
  "debouncedToggle (useFakeTimers realNow firstId, None,
      mockReturnValue (lit (1/2)) (spyOn \<lparr>impl = Original, native = g, nativeCalls = j\<rparr>))
   = clicked realNow firstId 1 g j"
  by (simp add: debouncedToggle_def useFakeTimers_def clearTimeout_def mockReturnValue_def
      spyOn_def Math_random_def setTimeout_def delay3_stubbed clicked_def Let_def)

lemma next_click:
  assumes "1 \<le> k"
  shows "debouncedToggle (clicked realNow firstId k g j) = clicked realNow firstId (Suc k) g j"
  using assms
  by (simp add: debouncedToggle_def clearTimeout_def Math_random_def setTimeout_def
      delay3_stubbed clicked_def Let_def)

lemma more_clicks:
  assumes "1 \<le> k"
  shows "clicks m (clicked realNow firstId k g j) = clicked realNow firstId (k + m) g j"
  using assms
proof (induction m arbitrary: k)
  case 0
  show ?case by simp
next
  case (Suc m)
  have "clicks (Suc m) (clicked realNow firstId k g j)
      = clicks m (clicked realNow firstId (Suc k) g j)"
    by (simp add: next_click [OF Suc.prems])
  also have "\<dots> = clicked realNow firstId (Suc k + m) g j"
    by (rule Suc.IH) simp
  finally show ?case by simp
qed

lemma clicks_from_start:
  assumes "1 \<le> n"
  shows "clicks n (useFakeTimers realNow firstId, None,
      mockReturnValue (lit (1/2)) (spyOn \<lparr>impl = Original, native = g, nativeCalls = j\<rparr>))
   = clicked realNow firstId n g j"
proof -
  obtain m where n: "n = Suc m" using assms by (cases n) auto
  show ?thesis
    using more_clicks [of 1 m realNow firstId g j] by (simp add: n first_click)
qed

lemma one_timer_fires:
  assumes "140 \<le> ms"
  shows "advanceTimersByTime exec3 ms
           (fst (clicked realNow firstId n g j),
            \<lparr>isOn = False, toggleCount = 0, status_textContent = ''Off''\<rparr>)
         = (\<lparr>now = realNow + int ms, timers = [], uniqueTimerId = firstId + n,
             duringTick = False\<rparr>,
            \<lparr>isOn = True, toggleCount = 1, status_textContent = ''On''\<rparr>)"
  using assms
  by (simp add: clicked_def advanceTimersByTime_def tickLoop.simps firstTimerInRange_def
      better_def callTimer_def addTimers_def Let_def)

text \<open>
  C9. With \<open>Math.random\<close> stubbed to 0.5 the debounce delay is 140 ms. However many
  clicks \<open>n \<ge> 1\<close> are made with no time passing, once the clock has been advanced by
  \<open>ms \<ge> 140\<close> the toggle body has run exactly once, the status reads \<open>On\<close>, no timer is
  pending, and the variables are those that a single click leaves.
\<close>

theorem debounce_coalesces:
  assumes "1 \<le> n" and "140 \<le> ms"
  shows "add (mul (lit (1/2)) 120) 80 = 140
       \<and> snd (test3 n ms realNow firstId \<lparr>impl = Original, native = g, nativeCalls = j\<rparr>)
           = \<lparr>isOn = True, toggleCount = 1, status_textContent = ''On''\<rparr>
       \<and> timers (fst (test3 n ms realNow firstId \<lparr>impl = Original, native = g, nativeCalls = j\<rparr>)) = []
       \<and> snd (test3 n ms realNow firstId \<lparr>impl = Original, native = g, nativeCalls = j\<rparr>)
           = snd (test3 1 ms realNow firstId \<lparr>impl = Original, native = g, nativeCalls = j\<rparr>)"
proof -
  have run: "test3 m ms realNow firstId \<lparr>impl = Original, native = g, nativeCalls = j\<rparr>
      = (\<lparr>now = realNow + int ms, timers = [], uniqueTimerId = firstId + m,
          duringTick = False\<rparr>,
         \<lparr>isOn = True, toggleCount = 1, status_textContent = ''On''\<rparr>)" if "1 \<le> m" for m
  proof -
    have "test3 m ms realNow firstId \<lparr>impl = Original, native = g, nativeCalls = j\<rparr>
        = advanceTimersByTime exec3 ms
           (fst (clicked realNow firstId m g j),
            \<lparr>isOn = False, toggleCount = 0, status_textContent = ''Off''\<rparr>)"
      by (simp add: test3_def clicks_from_start [OF that] Let_def split_def)
    then show ?thesis by (simp only: one_timer_fires [OF assms(2)])
  qed
  show ?thesis using run [OF assms(1)] run [of 1] by (simp add: delay3_stubbed)
qed

theorem debounce_coalesces_witness:
  "(1::nat) \<le> 3 \<and> (140::nat) \<le> 250
   \<and> snd (test3 3 250 0 1 \<lparr>impl = Original, native = (\<lambda>i. 0), nativeCalls = 0\<rparr>)
       = \<lparr>isOn = True, toggleCount = 1, status_textContent = ''On''\<rparr>
   \<and> snd (test3 3 250 0 1 \<lparr>impl = Original, native = (\<lambda>i. 0), nativeCalls = 0\<rparr>)
       = snd (test3 1 250 0 1 \<lparr>impl = Original, native = (\<lambda>i. 0), nativeCalls = 0\<rparr>)"
proof -
  have h: "(1::nat) \<le> 3" "(140::nat) \<le> 250" by simp_all
  from debounce_coalesces [OF h, of 0 1 "\<lambda>i. 0" 0] h show ?thesis by blast
qed

section \<open>Restoring the globals\<close>

lemma beforeEachTest_keeps_clock:
  "fakeClock (beforeEachTest config g) = fakeClock g"
  by (simp add: beforeEachTest_def restoreAllMocks_def resetAllMocks_def Let_def
      split: randomImpl.splits)

text \<open>
  C7. In the timezone America/New_York the local hour of \<open>2021-01-01T10:00:10Z\<close> is 5, the
  first expectation of test 12 fails, and the test ends before \<open>jest.useRealTimers()\<close>: the
  clock is still the fake one after the test, and still after what the configuration does
  before the next test. That restores \<open>Math.random\<close>, in whatever state a test has left it,
  and nothing else. In UTC the test passes and leaves the globals as it found them.
\<close>

theorem test12_leaves_fake_clock:
  "getHours America_New_York date_2021_01_01_10_00_10 = 5
   \<and> fst (test12 America_New_York \<lparr>random = s, fakeClock = None, wallClock = w\<rparr>) = False
   \<and> fakeClock (snd (test12 America_New_York \<lparr>random = s, fakeClock = None, wallClock = w\<rparr>))
       = Some date_2021_01_01_10_00_10
   \<and> fakeClock (beforeEachTest (module_exports env)
        (snd (test12 America_New_York \<lparr>random = s, fakeClock = None, wallClock = w\<rparr>)))
       = Some date_2021_01_01_10_00_10
   \<and> impl (random (beforeEachTest (module_exports env) g)) = Original
   \<and> test12 0 \<lparr>random = s, fakeClock = None, wallClock = w\<rparr>
       = (True, \<lparr>random = s, fakeClock = None, wallClock = w\<rparr>)"
proof -
  have "impl (random (beforeEachTest (module_exports env) g)) = Original"
    by (simp add: beforeEachTest_def module_exports_def restoreAllMocks_def mockRestore_def
        Let_def)
  moreover have "test12 0 \<lparr>random = s, fakeClock = None, wallClock = w\<rparr>
      = (True, \<lparr>random = s, fakeClock = None, wallClock = w\<rparr>)"
    by (simp add: test12_def jest_useFakeTimers_def jest_setSystemTime_def
        jest_useRealTimers_def Date_now_def getHours_def getMinutes_def getSeconds_def
        date_2021_01_01_10_00_10_def Let_def)
  ultimately show ?thesis
    by (simp add: beforeEachTest_keeps_clock test12_def jest_useFakeTimers_def
        jest_setSystemTime_def Date_now_def getHours_def getMinutes_def getSeconds_def
        date_2021_01_01_10_00_10_def America_New_York_def Let_def)
qed

end
